theory Spec2Isabelle
  imports Main "HOL-Library.Word"
begin

section \<open>Stream relay controller (\<open>run_streamlit_app\<close>, lines 224-293)\<close>

text \<open>
  Streamlit re-executes the script from top to bottom on every interaction. What survives
  between two executions is \<open>st.session_state\<close>, a dictionary; the controller keeps the
  \<open>Popen\<close> object of the relay process under the key \<open>ffmpeg_proc\<close>. A \<open>Popen\<close> object is
  modelled by a handle (a number); the operating system's side is the list of relay
  processes that were spawned and have neither been killed nor exited.
\<close>

type_synonym handle = nat

record app_state =
  session_state :: "string \<rightharpoonup> handle option"
  procs :: "(handle \<times> string list) list"
  next_handle :: handle

text \<open>The widget values of one execution of the script.\<close>

record ui_input =
  start_btn :: bool
  stop_btn :: bool
  video_path :: "string option"
  stream_key :: string
  is_shorts :: bool

text \<open>
  What one execution does to the outside: the Streamlit messages it shows, the lines it
  appends to the log, the process it spawns and the process it kills.
\<close>

datatype effect =
  St_error string
  | St_success string
  | St_warning string
  | St_info string
  | Append_log string
  | Popen "string list"
  | Kill handle

text \<open>\<open>" ".join(cmd)\<close>\<close>

fun join_space :: "string list \<Rightarrow> string" where
  "join_space [] = []"
| "join_space [x] = x"
| "join_space (x # y # ys) = x @ '' '' @ join_space (y # ys)"

text \<open>Lines 253-261: the invocation of the relay process.\<close>

definition scale_arg :: "bool \<Rightarrow> string list" where
  "scale_arg shorts = (if shorts then [''-vf'', ''scale=720:1280''] else [])"

definition output_url :: "string \<Rightarrow> string" where
  "output_url key = ''rtmp://a.rtmp.youtube.com/live2/'' @ key"

definition build_cmd :: "string \<Rightarrow> string \<Rightarrow> bool \<Rightarrow> string list" where
  "build_cmd path key shorts =
     [''ffmpeg'', ''-re'', ''-stream_loop'', ''-1'', ''-i'', path,
      ''-c:v'', ''libx264'', ''-preset'', ''veryfast'', ''-b:v'', ''2500k'',
      ''-maxrate'', ''2500k'', ''-bufsize'', ''5000k'',
      ''-g'', ''60'', ''-keyint_min'', ''60'',
      ''-c:a'', ''aac'', ''-b:a'', ''128k'']
     @ scale_arg shorts @ [''-f'', ''flv'', output_url key]"

text \<open>Lines 243-244: the key is created, holding \<open>None\<close>, when the session has none.\<close>

definition init_session :: "app_state \<Rightarrow> app_state" where
  "init_session s =
     (if session_state s ''ffmpeg_proc'' = None
      then s\<lparr>session_state := (session_state s)(''ffmpeg_proc'' \<mapsto> None)\<rparr>
      else s)"

text \<open>\<open>st.session_state.get("ffmpeg_proc")\<close>: \<open>None\<close> for a missing key as well.\<close>

definition get_proc :: "app_state \<Rightarrow> handle option" where
  "get_proc s = (case session_state s ''ffmpeg_proc'' of None \<Rightarrow> None | Some v \<Rightarrow> v)"

text \<open>
  Lines 246-283. \<open>not video_path\<close> holds for \<open>None\<close> and for the empty string. The
  argument \<open>popen_error\<close> is the environment's answer to \<open>subprocess.Popen\<close>: the message
  of the exception it raises, or \<open>None\<close> when the process starts. The reader thread
  (lines 270-279) runs concurrently and is not part of the model.
\<close>

definition no_file_msg :: string where
  "no_file_msg = ''Pilih file dulu dari dropdown '' @ [CHR 0x27]
     @ ''File yang tersedia di server'' @ [CHR 0x27] @ ''.''"

definition started_msg :: string where
  "started_msg = ''Streaming dimulai '' @ [CHR 0xE2, CHR 0x80, CHR 0x94] @ '' periksa log.''"

definition start_handler ::
  "string option \<Rightarrow> ui_input \<Rightarrow> app_state \<Rightarrow> app_state \<times> effect list" where
  "start_handler popen_error inp s =
     (case video_path inp of
        None \<Rightarrow> (s, [St_error no_file_msg])
      | Some path \<Rightarrow>
          if path = [] then (s, [St_error no_file_msg])
          else if stream_key inp = [] then (s, [St_error ''Masukkan stream key YouTube.''])
          else
            (let cmd = build_cmd path (stream_key inp) (is_shorts inp);
                 log1 = Append_log (''Menjalankan: '' @ join_space cmd)
             in case popen_error of
                  None \<Rightarrow>
                    (s\<lparr>session_state :=
                         (session_state s)(''ffmpeg_proc'' \<mapsto> Some (next_handle s)),
                       procs := procs s @ [(next_handle s, cmd)],
                       next_handle := Suc (next_handle s)\<rparr>,
                     [log1, Popen cmd, St_success started_msg])
                | Some e \<Rightarrow>
                    (s, [log1, Append_log (''Gagal menjalankan ffmpeg: '' @ e),
                         St_error
                           ''Gagal menjalankan ffmpeg. Pastikan ffmpeg terinstal di PATH.''])))"

text \<open>Lines 285-293. \<open>proc.kill()\<close> ends the process behind the handle.\<close>

definition kill :: "handle \<Rightarrow> (handle \<times> string list) list \<Rightarrow> (handle \<times> string list) list" where
  "kill h ps = filter (\<lambda>p. fst p \<noteq> h) ps"

definition stop_handler :: "app_state \<Rightarrow> app_state \<times> effect list" where
  "stop_handler s =
     (case get_proc s of
        Some h \<Rightarrow>
          (s\<lparr>procs := kill h (procs s),
             session_state := (session_state s)(''ffmpeg_proc'' \<mapsto> None)\<rparr>,
           [Kill h, St_warning ''Streaming dihentikan (ffmpeg killed).'',
            Append_log ''ffmpeg dihentikan oleh user.''])
      | None \<Rightarrow> (s, [St_info ''Tidak ada proses ffmpeg berjalan.'']))"

text \<open>One execution of the script, from line 243 to line 293.\<close>

definition run_streamlit_app ::
  "string option \<Rightarrow> ui_input \<Rightarrow> app_state \<Rightarrow> app_state \<times> effect list" where
  "run_streamlit_app popen_error inp s =
     (let s0 = init_session s;
          r1 = (if start_btn inp then start_handler popen_error inp s0 else (s0, []));
          r2 = (if stop_btn inp then stop_handler (fst r1) else (fst r1, []))
      in (fst r2, snd r1 @ snd r2))"

text \<open>
  The environment: the relay process behind handle \<open>h\<close> exits on its own. The session
  dictionary belongs to the script, so the exit leaves it as it is.
\<close>

definition proc_exits :: "handle \<Rightarrow> app_state \<Rightarrow> app_state" where
  "proc_exits h s = s\<lparr>procs := kill h (procs s)\<rparr>"

text \<open>A fresh session, and the inputs of the three kinds of execution.\<close>

definition fresh_state :: app_state where
  "fresh_state = \<lparr>session_state = Map.empty, procs = [], next_handle = 0\<rparr>"

definition press_start :: "string \<Rightarrow> string \<Rightarrow> bool \<Rightarrow> ui_input" where
  "press_start path key shorts =
     \<lparr>start_btn = True, stop_btn = False, video_path = Some path,
      stream_key = key, is_shorts = shorts\<rparr>"

definition press_stop :: ui_input where
  "press_stop =
     \<lparr>start_btn = False, stop_btn = True, video_path = None,
      stream_key = [], is_shorts = False\<rparr>"

definition press_nothing :: ui_input where
  "press_nothing =
     \<lparr>start_btn = False, stop_btn = False, video_path = None,
      stream_key = [], is_shorts = False\<rparr>"

text \<open>The effects of a stop that finds a handle, and a session used in the examples.\<close>

definition stop_msgs :: "handle \<Rightarrow> effect list" where
  "stop_msgs h = [Kill h, St_warning ''Streaming dihentikan (ffmpeg killed).'',
            Append_log ''ffmpeg dihentikan oleh user.'']"

definition demo_path :: string where "demo_path = ''/srv/uploads/a.mp4''"

definition demo_started :: app_state where
  "demo_started = fst (run_streamlit_app None (press_start demo_path ''key'' False) fresh_state)"

definition demo_exited :: app_state where
  "demo_exited = fst (run_streamlit_app None press_nothing (proc_exits 0 demo_started))"

definition demo_restarted :: app_state where
  "demo_restarted = fst (run_streamlit_app None (press_start demo_path ''key'' False) demo_started)"

section \<open>Upload ingestion service (\<open>upload\<close>, lines 63-107)\<close>

subsection \<open>Library functions the handler calls\<close>

text \<open>
  The handler runs on a POSIX system: \<open>os.path\<close> is \<open>posixpath\<close>, the only separator is the
  slash. File contents are byte strings; a path is what \<open>pathlib\<close> makes of it, the tuple
  \<open>Path.parts\<close>. The file system maps the paths of regular files, relative to the working
  directory, to their contents.
\<close>

type_synonym byte = "8 word"
type_synonym path = "string list"
type_synonym filesystem = "path \<rightharpoonup> byte list"

text \<open>\<open>s.rfind(c)\<close>: the index of the last occurrence of \<open>c\<close>, or \<open>-1\<close>.\<close>

definition rfind :: "string \<Rightarrow> char \<Rightarrow> int" where
  "rfind s c =
     (if c \<in> set s
      then int (length s) - 1 - int (length (takeWhile (\<lambda>x. x \<noteq> c) (rev s)))
      else - 1)"

text \<open>\<open>os.path.basename(p)\<close>: \<open>i = p.rfind('/') + 1; return p[i:]\<close>.\<close>

definition basename :: "string \<Rightarrow> string" where
  "basename p = drop (nat (rfind p CHR ''/'' + 1)) p"

text \<open>
  \<open>os.path.splitext(p)\<close>: the extension starts at the last dot, provided that dot comes
  after the last separator and some character between the two is not a dot (leading dots
  of the name do not start an extension).
\<close>

definition splitext :: "string \<Rightarrow> string \<times> string" where
  "splitext p =
     (let sepIndex = rfind p CHR ''/'';
          dotIndex = rfind p CHR ''.''
      in if dotIndex > sepIndex
            \<and> filter (\<lambda>c. c \<noteq> CHR ''.'')
                 (take (nat (dotIndex - (sepIndex + 1))) (drop (nat (sepIndex + 1)) p)) \<noteq> []
         then (take (nat dotIndex) p, drop (nat dotIndex) p)
         else (p, []))"

text \<open>\<open>str(counter)\<close> of the f-string at line 81: the decimal digits of a natural number.\<close>

definition digit_char :: "nat \<Rightarrow> char" where
  "digit_char d = ''0123456789'' ! d"

fun str :: "nat \<Rightarrow> string" where
  "str n = (if n < 10 then [digit_char n] else str (n div 10) @ [digit_char (n mod 10)])"

declare str.simps [simp del]

text \<open>
  \<open>pathlib\<close>: a path string is cut at the slashes, empty components and the component
  \<open>.\<close> are dropped, \<open>..\<close> is kept; an absolute path has the root as its first part.
  \<open>p / s\<close> appends the parts of \<open>s\<close>, unless \<open>s\<close> is absolute: then \<open>p\<close> is forgotten.
  \<open>Path.name\<close> is the last part.
\<close>

fun split_slash :: "string \<Rightarrow> string list" where
  "split_slash [] = [[]]"
| "split_slash (c # cs) =
     (if c = CHR ''/'' then [] # split_slash cs
      else (case split_slash cs of [] \<Rightarrow> [[c]] | x # xs \<Rightarrow> (c # x) # xs))"

definition is_absolute :: "string \<Rightarrow> bool" where
  "is_absolute s = (case s of [] \<Rightarrow> False | c # _ \<Rightarrow> c = CHR ''/'')"

definition parts :: "string \<Rightarrow> path" where
  "parts s = (if is_absolute s then [''/''] else [])
             @ filter (\<lambda>x. x \<noteq> [] \<and> x \<noteq> ''.'') (split_slash s)"

definition path_div :: "path \<Rightarrow> string \<Rightarrow> path" where
  "path_div p s = (if is_absolute s then parts s else p @ parts s)"

definition path_name :: "path \<Rightarrow> string" where
  "path_name p = (if p = [] \<or> p = [''/''] then [] else last p)"

text \<open>Line 32.\<close>

definition UPLOAD_DIR :: path where
  "UPLOAD_DIR = parts ''./uploads''"

text \<open>
  \<open>Path.exists()\<close>. The storage directory exists (line 33 creates it) and is flat, so the
  directories that a path below it can name are the directory itself and, through \<open>..\<close>,
  its parent. Everything else that exists is a regular file of the file system.
\<close>

definition is_dir :: "path \<Rightarrow> bool" where
  "is_dir p \<longleftrightarrow> p = UPLOAD_DIR \<or> p = UPLOAD_DIR @ [''..'']"

definition path_exists :: "filesystem \<Rightarrow> path \<Rightarrow> bool" where
  "path_exists fs p \<longleftrightarrow> is_dir p \<or> fs p \<noteq> None"

subsection \<open>Filename resolution (lines 70-85)\<close>

text \<open>Line 81: \<open>UPLOAD_DIR / f"{base}({counter}){ext}"\<close>.\<close>

definition candidate :: "string \<Rightarrow> string \<Rightarrow> nat \<Rightarrow> path" where
  "candidate base ext counter = path_div UPLOAD_DIR (base @ ''('' @ str counter @ '')'' @ ext)"

text \<open>
  Lines 80-85, the loop \<open>while True\<close>. Nothing in the loop bounds the counter, so the loop
  is a partial function: \<open>None\<close> stands for a loop that never leaves.
\<close>

partial_function (option) probe :: "filesystem \<Rightarrow> string \<Rightarrow> string \<Rightarrow> nat \<Rightarrow> path option" where
  "probe fs base ext counter =
     (if \<not> path_exists fs (candidate base ext counter)
      then Some (candidate base ext counter)
      else probe fs base ext (counter + 1))"

declare probe.simps [code]

text \<open>Lines 74-85: the destination path for a sanitized name.\<close>

definition resolve_dest :: "filesystem \<Rightarrow> string \<Rightarrow> path option" where
  "resolve_dest fs name =
     (if path_exists fs (path_div UPLOAD_DIR name)
      then (case splitext name of (base, ext) \<Rightarrow> probe fs base ext 1)
      else Some (path_div UPLOAD_DIR name))"

subsection \<open>Streaming write (lines 87-107)\<close>

text \<open>Line 88.\<close>

definition CHUNK_SIZE :: nat where
  "CHUNK_SIZE = 1024 * 1024 * 4"

text \<open>
  The environment of one request. At most one operation fails, since the first failure
  ends the request: opening the file, the \<open>k\<close>-th read, the \<open>k\<close>-th write (after \<open>n\<close> bytes
  of the chunk have reached the file) or closing the file; the string is the text of the
  exception. Independently, the \<open>unlink\<close> of the clean-up may fail.
\<close>

datatype io_fault =
  Open_fails string
  | Read_fails nat string
  | Write_fails nat nat string
  | Close_fails string

record io_env =
  fault :: "io_fault option"
  unlink_fails :: bool

text \<open>
  The operations on the file system and on the request body that completed, in the order
  in which the handler awaited them. \<open>Ev_raise\<close> marks an operation that raised instead
  of completing, \<open>Ev_unlink_failed\<close> an \<open>unlink\<close> whose exception the bare \<open>except\<close> of
  line 103 swallowed.
\<close>

datatype io_event =
  Ev_open path
  | Ev_read nat "byte list"
  | Ev_write "byte list"
  | Ev_close
  | Ev_unlink path
  | Ev_unlink_failed path
  | Ev_raise string

datatype http_error = HTTPException nat string

record response =
  filename :: string
  size_bytes :: nat

text \<open>
  \<open>file.read(n)\<close>. The body still to come is a list of segments, the pieces in which it
  reaches the handler; a read returns at most \<open>n\<close> bytes of the first segment, and the
  empty byte string when nothing is left.
\<close>

fun file_read :: "nat \<Rightarrow> byte list list \<Rightarrow> byte list \<times> byte list list" where
  "file_read n [] = ([], [])"
| "file_read n (s # rest) = (take n s, if length s \<le> n then rest else drop n s # rest)"

definition read_error :: "io_fault option \<Rightarrow> nat \<Rightarrow> string option" where
  "read_error flt i =
     (case flt of Some (Read_fails k msg) \<Rightarrow> if k = i then Some msg else None | _ \<Rightarrow> None)"

definition write_error :: "io_fault option \<Rightarrow> nat \<Rightarrow> (nat \<times> string) option" where
  "write_error flt i =
     (case flt of Some (Write_fails k n msg) \<Rightarrow> if k = i then Some (n, msg) else None
      | _ \<Rightarrow> None)"

definition close_error :: "io_fault option \<Rightarrow> string option" where
  "close_error flt = (case flt of Some (Close_fails msg) \<Rightarrow> Some msg | _ \<Rightarrow> None)"

text \<open>
  Lines 92-97, iteration \<open>i\<close> of the loop. The result is the exception text or the final
  \<open>total_written\<close>, the contents of the destination file, and the events so far.
\<close>

function stream_loop ::
  "io_fault option \<Rightarrow> nat \<Rightarrow> byte list list \<Rightarrow> byte list \<Rightarrow> nat \<Rightarrow> io_event list
     \<Rightarrow> (string + nat) \<times> byte list \<times> io_event list" where
  "stream_loop flt i body content total_written tr =
     (case read_error flt i of
        Some msg \<Rightarrow> (Inl msg, content, tr @ [Ev_raise msg])
      | None \<Rightarrow>
          (case file_read CHUNK_SIZE body of
             (chunk, body') \<Rightarrow>
               if chunk = [] then (Inr total_written, content, tr @ [Ev_read CHUNK_SIZE chunk])
               else
                 (case write_error flt i of
                    Some (n, msg) \<Rightarrow>
                      (Inl msg, content @ take n chunk,
                       tr @ [Ev_read CHUNK_SIZE chunk, Ev_raise msg])
                  | None \<Rightarrow>
                      stream_loop flt (i + 1) body' (content @ chunk)
                        (total_written + length chunk)
                        (tr @ [Ev_read CHUNK_SIZE chunk, Ev_write chunk]))))"
  by pat_completeness auto
termination
  apply (relation "measure (\<lambda>(flt, i, body, content, total_written, tr). sum_list (map length body))")
   apply simp
  subgoal for flt i body
    by (cases body) (auto simp: CHUNK_SIZE_def split: if_splits)
  done

declare stream_loop.simps [simp del]

text \<open>
  Line 91, \<open>aiofiles.open(dest_path, "wb")\<close>: the file is created, or truncated, unless the
  call raises; a directory cannot be opened for writing.
\<close>

definition open_wb :: "io_env \<Rightarrow> filesystem \<Rightarrow> path \<Rightarrow> string + filesystem" where
  "open_wb env fs p =
     (case fault env of
        Some (Open_fails msg) \<Rightarrow> Inl msg
      | _ \<Rightarrow> if is_dir p then Inl ''[Errno 21] Is a directory'' else Inr (fs(p \<mapsto> [])))"

text \<open>Lines 100-104: \<open>unlink\<close> if the path exists; whatever the attempt raises is dropped.\<close>

definition cleanup :: "io_env \<Rightarrow> filesystem \<Rightarrow> path \<Rightarrow> filesystem \<times> io_event list" where
  "cleanup env fs p =
     (if path_exists fs p
      then (if unlink_fails env \<or> is_dir p then (fs, [Ev_unlink_failed p])
            else (fs(p := None), [Ev_unlink p]))
      else (fs, []))"

text \<open>Lines 98-105, the handler of \<open>except Exception as e\<close>.\<close>

definition save_failed ::
  "io_env \<Rightarrow> filesystem \<Rightarrow> path \<Rightarrow> string \<Rightarrow> io_event list
     \<Rightarrow> (http_error + response) \<times> filesystem \<times> io_event list" where
  "save_failed env fs p msg tr =
     (case cleanup env fs p of
        (fs', tr') \<Rightarrow> (Inl (HTTPException 500 (''Failed to save file: '' @ msg)), fs', tr @ tr'))"

text \<open>
  Lines 87-107. Leaving the \<open>async with\<close> block closes the file, also when the block
  raised; closing after a successful loop may itself raise.
\<close>

definition save ::
  "io_env \<Rightarrow> filesystem \<Rightarrow> path \<Rightarrow> byte list list
     \<Rightarrow> (http_error + response) \<times> filesystem \<times> io_event list" where
  "save env fs dest_path body =
     (case open_wb env fs dest_path of
        Inl msg \<Rightarrow> save_failed env fs dest_path msg [Ev_raise msg]
      | Inr fs1 \<Rightarrow>
          (case stream_loop (fault env) 0 body [] 0 [Ev_open dest_path] of
             (Inl msg, content, tr) \<Rightarrow>
               save_failed env (fs1(dest_path \<mapsto> content)) dest_path msg (tr @ [Ev_close])
           | (Inr total_written, content, tr) \<Rightarrow>
               (case close_error (fault env) of
                  Some msg \<Rightarrow>
                    save_failed env (fs1(dest_path \<mapsto> content)) dest_path msg
                      (tr @ [Ev_raise msg])
                | None \<Rightarrow>
                    (Inr \<lparr>filename = path_name dest_path, size_bytes = total_written\<rparr>,
                     fs1(dest_path \<mapsto> content), tr @ [Ev_close]))))"

text \<open>
  Lines 70-107, the handler of \<open>POST /upload\<close>: the response or the HTTP error, the file
  system afterwards and the events. \<open>None\<close>: the probing loop never ends.
\<close>

definition upload ::
  "io_env \<Rightarrow> filesystem \<Rightarrow> string \<Rightarrow> byte list list
     \<Rightarrow> ((http_error + response) \<times> filesystem \<times> io_event list) option" where
  "upload env fs file_filename body =
     (if basename file_filename = [] then
        Some (Inl (HTTPException 400 ''Missing filename''), fs, [])
      else
        (case resolve_dest fs (basename file_filename) of
           None \<Rightarrow> None
         | Some dest_path \<Rightarrow> Some (save env fs dest_path body)))"

subsection \<open>Notions used to state the properties\<close>

text \<open>The events of chunks that were read and written, one read and one write each.\<close>

definition chunk_events :: "byte list list \<Rightarrow> io_event list" where
  "chunk_events cs = concat (map (\<lambda>c. [Ev_read CHUNK_SIZE c, Ev_write c]) cs)"

text \<open>The bytes of the body up to the first zero-length read.\<close>

definition received :: "byte list list \<Rightarrow> byte list" where
  "received body = concat (takeWhile (\<lambda>s. s \<noteq> []) body)"

text \<open>The name \<open>name\<close> with the counter \<open>k\<close> in parentheses before its extension.\<close>

definition numbered :: "string \<Rightarrow> nat \<Rightarrow> string" where
  "numbered name k =
     fst (splitext name) @ ''('' @ str k @ '')'' @ snd (splitext name)"

text \<open>
  A name that denotes an entry of the directory it is looked up in: not empty, no
  separator, and neither the directory itself nor its parent.
\<close>

definition plain_name :: "string \<Rightarrow> bool" where
  "plain_name n \<longleftrightarrow> n \<noteq> [] \<and> CHR ''/'' \<notin> set n \<and> n \<noteq> ''.'' \<and> n \<noteq> ''..''"


fun touched :: "io_event list \<Rightarrow> path list" where
  "touched [] = []"
| "touched (Ev_open p # es) = p # touched es"
| "touched (Ev_unlink p # es) = p # touched es"
| "touched (Ev_unlink_failed p # es) = p # touched es"
| "touched (e # es) = touched es"


definition open_fault :: "io_fault option \<Rightarrow> bool" where
  "open_fault flt = (case flt of Some (Open_fails msg) \<Rightarrow> True | _ \<Rightarrow> False)"

text \<open>Environments, a body and a storage directory used in the examples.\<close>

definition no_faults :: io_env where
  "no_faults = \<lparr>fault = None, unlink_fails = False\<rparr>"

definition disk_full :: io_env where
  "disk_full = \<lparr>fault = Some (Write_fails 1 1 ''disk full''), unlink_fails = False\<rparr>"

definition demo_body :: "byte list list" where
  "demo_body = [[1, 2, 3], [4, 5]]"

definition demo_fs :: filesystem where
  "demo_fs = [[''uploads'', ''video.mp4''] \<mapsto> [7]]"

section \<open>Properties of the relay controller\<close>

lemma build_cmd_shape:
  "build_cmd path key shorts =
     take 24 (build_cmd path key False) @ scale_arg shorts @ [''-f'', ''flv'', output_url key]"
  by (simp add: build_cmd_def scale_arg_def)

text \<open>
  C9. When a relay session is started (the script reaches \<open>Popen\<close>), the invocation holds
  the vertical transform, the option \<open>-vf\<close> followed by \<open>scale=720:1280\<close>, if and only if
  the Shorts flag is set. The source path is the absolute path computed at line 220, so
  it begins with a slash and is neither of the two words.
\<close>

theorem start_vertical_iff_shorts:
  assumes "Popen cmd \<in> set (snd (run_streamlit_app pe inp s))"
    and "video_path inp = Some (CHR ''/'' # rest)"
  shows "(''scale=720:1280'' \<in> set cmd \<longleftrightarrow> is_shorts inp)
       \<and> (''-vf'' \<in> set cmd \<longleftrightarrow> is_shorts inp)
       \<and> cmd = build_cmd (CHR ''/'' # rest) (stream_key inp) (is_shorts inp)
       \<and> (is_shorts inp \<longleftrightarrow> drop 24 cmd = [''-vf'', ''scale=720:1280'', ''-f'', ''flv'',
             output_url (stream_key inp)])"
proof -
  have cmd: "cmd = build_cmd (CHR ''/'' # rest) (stream_key inp) (is_shorts inp)"
    using assms
    by (auto simp: run_streamlit_app_def start_handler_def stop_handler_def Let_def
        split: if_splits option.splits)
  show ?thesis
    unfolding cmd by (simp add: build_cmd_def scale_arg_def output_url_def)
qed

theorem start_vertical_iff_shorts_witness:
  "Popen (build_cmd ''/srv/uploads/a.mp4'' ''key'' True)
     \<in> set (snd (run_streamlit_app None (press_start ''/srv/uploads/a.mp4'' ''key'' True) fresh_state))
   \<and> ''scale=720:1280'' \<in> set (build_cmd ''/srv/uploads/a.mp4'' ''key'' True)
   \<and> Popen (build_cmd ''/srv/uploads/a.mp4'' ''key'' False)
     \<in> set (snd (run_streamlit_app None (press_start ''/srv/uploads/a.mp4'' ''key'' False) fresh_state))
   \<and> ''scale=720:1280'' \<notin> set (build_cmd ''/srv/uploads/a.mp4'' ''key'' False)"
proof -
  have a: "Popen (build_cmd ''/srv/uploads/a.mp4'' ''key'' True)
     \<in> set (snd (run_streamlit_app None (press_start ''/srv/uploads/a.mp4'' ''key'' True) fresh_state))"
    by (simp add: run_streamlit_app_def start_handler_def press_start_def fresh_state_def
        init_session_def Let_def)
  have b: "Popen (build_cmd ''/srv/uploads/a.mp4'' ''key'' False)
     \<in> set (snd (run_streamlit_app None (press_start ''/srv/uploads/a.mp4'' ''key'' False) fresh_state))"
    by (simp add: run_streamlit_app_def start_handler_def press_start_def fresh_state_def
        init_session_def Let_def)
  have va: "video_path (press_start ''/srv/uploads/a.mp4'' ''key'' True) = Some (CHR ''/'' # ''srv/uploads/a.mp4'')"
    by (simp add: press_start_def)
  have vb: "video_path (press_start ''/srv/uploads/a.mp4'' ''key'' False) = Some (CHR ''/'' # ''srv/uploads/a.mp4'')"
    by (simp add: press_start_def)
  from start_vertical_iff_shorts [OF a va] start_vertical_iff_shorts [OF b vb] a b
  show ?thesis by (simp add: press_start_def)
qed

lemma get_proc_init [simp]: "get_proc (init_session s) = get_proc s"
  by (simp add: init_session_def get_proc_def)

lemma procs_init [simp]: "procs (init_session s) = procs s"
  by (simp add: init_session_def)

lemma init_session_idem [simp]: "init_session (init_session s) = init_session s"
  by (simp add: init_session_def)

text \<open>
  C7. An execution that presses only the stop button while no handle is stored changes
  nothing (but for creating the session key) and reports that no relay process is
  running. With a handle \<open>h\<close> stored it kills \<open>h\<close>, reports the stream as stopped and
  stores \<open>None\<close>; from then on every further stop, any number \<open>n\<close> of them, leaves the state
  as it is and reports that nothing is running.
\<close>

theorem stop_semantics:
  assumes "stop_btn inp" and "\<not> start_btn inp"
  shows "(get_proc s = None \<longrightarrow>
            run_streamlit_app pe inp s = (init_session s, [St_info ''Tidak ada proses ffmpeg berjalan.'']))
       \<and> (get_proc s = Some h \<longrightarrow>
            snd (run_streamlit_app pe inp s) = stop_msgs h
          \<and> procs (fst (run_streamlit_app pe inp s)) = kill h (procs s)
          \<and> get_proc (fst (run_streamlit_app pe inp s)) = None
          \<and> ((\<lambda>t. fst (run_streamlit_app pe inp t)) ^^ n) (fst (run_streamlit_app pe inp s))
              = fst (run_streamlit_app pe inp s)
          \<and> snd (run_streamlit_app pe inp (fst (run_streamlit_app pe inp s)))
              = [St_info ''Tidak ada proses ffmpeg berjalan.''])"
proof -
  have idle: "run_streamlit_app pe inp t = (init_session t, [St_info ''Tidak ada proses ffmpeg berjalan.''])"
    if "get_proc t = None" for t
    using that assms by (simp add: run_streamlit_app_def stop_handler_def Let_def)
  have busy: "run_streamlit_app pe inp s =
      ((init_session s)\<lparr>procs := kill h (procs s),
             session_state := (session_state (init_session s))(''ffmpeg_proc'' \<mapsto> None)\<rparr>, stop_msgs h)"
    if "get_proc s = Some h"
    using that assms by (simp add: run_streamlit_app_def stop_handler_def Let_def stop_msgs_def)
  have rel: "get_proc (fst (run_streamlit_app pe inp s)) = None" if "get_proc s = Some h"
    using busy [OF that] by (simp add: get_proc_def)
  have fixd: "init_session (fst (run_streamlit_app pe inp s)) = fst (run_streamlit_app pe inp s)"
    if "get_proc s = Some h"
    using busy [OF that] by (simp add: init_session_def)
  have iter: "((\<lambda>t. fst (run_streamlit_app pe inp t)) ^^ n) (fst (run_streamlit_app pe inp s))
              = fst (run_streamlit_app pe inp s)" if "get_proc s = Some h"
  proof (induction n)
    case 0 show ?case by simp
  next
    case (Suc n)
    then show ?case using idle [OF rel [OF that]] fixd [OF that] by simp
  qed
  show ?thesis
    using idle busy rel iter by simp
qed

lemma demo_started_eq:
  "demo_started = \<lparr>session_state = [''ffmpeg_proc'' \<mapsto> Some 0],
      procs = [(0, build_cmd demo_path ''key'' False)], next_handle = Suc 0\<rparr>"
  by (simp add: demo_started_def run_streamlit_app_def start_handler_def press_start_def
      fresh_state_def init_session_def Let_def demo_path_def)

theorem stop_semantics_witness:
  "run_streamlit_app None press_stop fresh_state
      = (init_session fresh_state, [St_info ''Tidak ada proses ffmpeg berjalan.''])
   \<and> get_proc demo_started = Some 0
   \<and> snd (run_streamlit_app None press_stop demo_started) = stop_msgs 0
   \<and> get_proc (fst (run_streamlit_app None press_stop demo_started)) = None
   \<and> snd (run_streamlit_app None press_stop (fst (run_streamlit_app None press_stop demo_started)))
        = [St_info ''Tidak ada proses ffmpeg berjalan.'']"
proof -
  have b: "stop_btn press_stop" and nb: "\<not> start_btn press_stop"
    by (simp_all add: press_stop_def)
  have idle: "get_proc fresh_state = None"
    by (simp add: get_proc_def fresh_state_def)
  have busy: "get_proc demo_started = Some 0"
    by (simp add: demo_started_eq get_proc_def)
  from stop_semantics [OF b nb, of fresh_state None 0 0] idle
    stop_semantics [OF b nb, of demo_started None 0 0] busy
  show ?thesis by simp
qed

text \<open>
  C5, as stated, fails. A session is started, the relay process exits on its own (no
  process is left), the script runs once more with no button pressed: the handle is still
  stored, and a stop pressed then reports that the relay process was killed.
\<close>

theorem self_exit_counterexample:
  "procs (proc_exits 0 demo_started) = []
   \<and> get_proc demo_exited = Some 0
   \<and> snd (run_streamlit_app None press_stop demo_exited) = stop_msgs 0"
  by (simp add: demo_exited_def demo_started_eq proc_exits_def kill_def run_streamlit_app_def
      press_nothing_def press_stop_def init_session_def get_proc_def stop_handler_def
      stop_msgs_def Let_def)

text \<open>
  C5, amended. The controller never polls the process. After the process behind the
  stored handle \<open>h\<close> has exited, an execution that presses no button reports nothing and
  keeps \<open>h\<close>; the handle is released only by an explicit stop, which still reports the
  process as killed.
\<close>

theorem self_exit_not_detected:
  assumes "get_proc s = Some h" and "\<not> start_btn inp" and "\<not> stop_btn inp"
  shows "get_proc (fst (run_streamlit_app pe inp (proc_exits h s))) = Some h
       \<and> snd (run_streamlit_app pe inp (proc_exits h s)) = []
       \<and> snd (run_streamlit_app pe press_stop (proc_exits h s)) = stop_msgs h
       \<and> get_proc (fst (run_streamlit_app pe press_stop (proc_exits h s))) = None"
  using assms
  by (simp add: run_streamlit_app_def proc_exits_def init_session_def get_proc_def
      stop_handler_def stop_msgs_def press_stop_def Let_def split: option.splits)

theorem self_exit_not_detected_witness:
  "get_proc demo_started = Some 0
   \<and> get_proc (fst (run_streamlit_app None press_nothing (proc_exits 0 demo_started))) = Some 0
   \<and> snd (run_streamlit_app None press_nothing (proc_exits 0 demo_started)) = []
   \<and> get_proc (fst (run_streamlit_app None press_stop (proc_exits 0 demo_started))) = None"
proof -
  have busy: "get_proc demo_started = Some 0"
    by (simp add: demo_started_eq get_proc_def)
  have n1: "\<not> start_btn press_nothing" and n2: "\<not> stop_btn press_nothing"
    by (simp_all add: press_nothing_def)
  from self_exit_not_detected [OF busy n1 n2, of None] busy
  show ?thesis by simp
qed

text \<open>
  C6, as stated, fails. Start is pressed twice: the second execution spawns a second relay
  process, both are alive, and the stored handle is the second one.
\<close>

theorem second_start_counterexample:
  "get_proc demo_started = Some 0
   \<and> get_proc demo_restarted = Some 1
   \<and> map fst (procs demo_restarted) = [0, 1]
   \<and> Popen (build_cmd demo_path ''key'' False)
        \<in> set (snd (run_streamlit_app None (press_start demo_path ''key'' False) demo_started))"
  by (simp add: demo_restarted_def demo_started_eq run_streamlit_app_def start_handler_def
      press_start_def init_session_def get_proc_def Let_def demo_path_def)

text \<open>
  C6, amended. The start branch does not look at the stored handle. With a handle stored, a
  file selected, a stream key given and a process that launches, the execution spawns a
  further relay process and reports success; the new handle replaces the stored one and the
  earlier process stays alive.
\<close>

theorem second_start_spawns_again:
  assumes "get_proc s = Some h" and "start_btn inp" and "\<not> stop_btn inp"
    and "video_path inp = Some path" and "path \<noteq> []" and "stream_key inp \<noteq> []"
  shows "snd (run_streamlit_app None inp s) =
           [Append_log (''Menjalankan: '' @ join_space (build_cmd path (stream_key inp) (is_shorts inp))),
            Popen (build_cmd path (stream_key inp) (is_shorts inp)),
            St_success started_msg]
       \<and> get_proc (fst (run_streamlit_app None inp s)) = Some (next_handle s)
       \<and> procs (fst (run_streamlit_app None inp s))
           = procs s @ [(next_handle s, build_cmd path (stream_key inp) (is_shorts inp))]"
  using assms
  by (simp add: run_streamlit_app_def start_handler_def init_session_def get_proc_def Let_def)

theorem second_start_spawns_again_witness:
  "get_proc demo_started = Some 0
   \<and> get_proc (fst (run_streamlit_app None (press_start demo_path ''key'' False) demo_started))
       = Some 1
   \<and> procs (fst (run_streamlit_app None (press_start demo_path ''key'' False) demo_started))
       = [(0, build_cmd demo_path ''key'' False), (1, build_cmd demo_path ''key'' False)]"
proof -
  have busy: "get_proc demo_started = Some 0"
    by (simp add: demo_started_eq get_proc_def)
  have i: "start_btn (press_start demo_path ''key'' False)"
    "\<not> stop_btn (press_start demo_path ''key'' False)"
    "video_path (press_start demo_path ''key'' False) = Some demo_path"
    "demo_path \<noteq> []" "stream_key (press_start demo_path ''key'' False) \<noteq> []"
    by (simp_all add: press_start_def demo_path_def)
  from second_start_spawns_again [OF busy i] busy
  show ?thesis by (simp add: demo_started_eq press_start_def)
qed

section \<open>Properties of the upload ingestion service\<close>

subsection \<open>Names, digits and paths\<close>

lemma drop_last_segment:
  "drop (length s - length (takeWhile P (rev s))) s = rev (takeWhile P (rev s))"
proof -
  have "s = rev (dropWhile P (rev s)) @ rev (takeWhile P (rev s))"
    by (metis rev_append rev_rev_ident takeWhile_dropWhile_id)
  moreover have "length (rev (dropWhile P (rev s))) = length s - length (takeWhile P (rev s))"
    by (metis add_diff_cancel_left' length_append length_rev takeWhile_dropWhile_id)
  ultimately show ?thesis
    by (metis append_eq_conv_conj)
qed

lemma basename_eq: "basename p = rev (takeWhile (\<lambda>x. x \<noteq> CHR ''/'') (rev p))"
proof (cases "CHR ''/'' \<in> set p")
  case True
  have le: "length (takeWhile (\<lambda>x. x \<noteq> CHR ''/'') (rev p)) \<le> length p"
    by (metis length_rev length_takeWhile_le)
  have "nat (rfind p CHR ''/'' + 1)
      = length p - length (takeWhile (\<lambda>x. x \<noteq> CHR ''/'') (rev p))"
    using True le by (simp add: rfind_def)
  then show ?thesis by (simp add: basename_def drop_last_segment)
next
  case False
  then have "\<forall>x\<in>set (rev p). x \<noteq> CHR ''/''"
    by auto
  then have "takeWhile (\<lambda>x. x \<noteq> CHR ''/'') (rev p) = rev p"
    by (rule takeWhile_eq_all_conv [THEN iffD2])
  then have "rev (takeWhile (\<lambda>x. x \<noteq> CHR ''/'') (rev p)) = p"
    by (simp only: rev_rev_ident)
  moreover from False have "basename p = p"
    by (simp add: basename_def rfind_def)
  ultimately show ?thesis by simp
qed

lemma basename_no_slash: "CHR ''/'' \<notin> set (basename p)"
  by (auto simp: basename_eq dest: set_takeWhileD)

lemma splitext_append: "splitext p = (b, e) \<Longrightarrow> b @ e = p"
  by (auto simp: splitext_def Let_def split: if_splits)

lemma str_nonempty: "str n \<noteq> []"
  by (subst str.simps) simp

lemma digit_char_cases:
  "d < 10 \<Longrightarrow> digit_char d \<in> set ''0123456789''"
  unfolding digit_char_def by (rule nth_mem) simp

lemma digit_char_inj:
  assumes "a < 10" "b < 10" "digit_char a = digit_char b"
  shows "a = b"
proof -
  have d: "distinct ''0123456789''" by simp
  from assms show ?thesis
    unfolding digit_char_def using d nth_eq_iff_index_eq [OF d, of a b] by simp
qed

lemma str_digits: "set (str n) \<subseteq> set ''0123456789''"
proof (induction n rule: str.induct)
  case (1 n)
  show ?case
  proof (cases "n < 10")
    case True
    then show ?thesis using digit_char_cases [of n] by (subst str.simps) simp
  next
    case False
    have "n mod 10 < 10" by simp
    then have "digit_char (n mod 10) \<in> set ''0123456789''" by (rule digit_char_cases)
    with False 1 show ?thesis by (subst str.simps) simp
  qed
qed

lemma str_no_slash: "CHR ''/'' \<notin> set (str n)"
  using str_digits [of n] by auto

lemma str_inj: "str m = str n \<Longrightarrow> m = n"
proof (induction m arbitrary: n rule: str.induct)
  case (1 m)
  show ?case
  proof (cases "m < 10")
    case m: True
    show ?thesis
    proof (cases "n < 10")
      case True
      with m "1.prems" show ?thesis
        by (simp add: str.simps [of m] str.simps [of n] digit_char_inj)
    next
      case False
      with m "1.prems" str_nonempty [of "n div 10"] show ?thesis
        by (simp add: str.simps [of m] str.simps [of n])
    qed
  next
    case m: False
    show ?thesis
    proof (cases "n < 10")
      case True
      with m "1.prems" str_nonempty [of "m div 10"] show ?thesis
        by (simp add: str.simps [of m] str.simps [of n])
    next
      case False
      with m "1.prems" have e: "str (m div 10) = str (n div 10)"
        and d: "digit_char (m mod 10) = digit_char (n mod 10)"
        by (simp_all add: str.simps [of m] str.simps [of n])
      from "1.IH" [OF m e] have q: "m div 10 = n div 10" .
      have "m mod 10 = n mod 10"
        using d by (intro digit_char_inj) simp_all
      with q show ?thesis by (metis div_mult_mod_eq)
    qed
  qed
qed

lemma split_slash_plain: "CHR ''/'' \<notin> set s \<Longrightarrow> split_slash s = [s]"
  by (induction s) auto

lemma UPLOAD_DIR_eq: "UPLOAD_DIR = [''uploads'']"
  by (simp add: UPLOAD_DIR_def parts_def is_absolute_def)

lemma path_div_plain:
  assumes "CHR ''/'' \<notin> set s" "s \<noteq> []" "s \<noteq> ''.''"
  shows "path_div UPLOAD_DIR s = [''uploads'', s]"
proof -
  from assms have "\<not> is_absolute s"
    by (cases s) (auto simp: is_absolute_def)
  with assms show ?thesis
    by (simp add: path_div_def parts_def split_slash_plain UPLOAD_DIR_eq)
qed

lemma candidate_plain:
  assumes "CHR ''/'' \<notin> set base" "CHR ''/'' \<notin> set ext"
  shows "candidate base ext k = [''uploads'', base @ ''('' @ str k @ '')'' @ ext]"
proof -
  have 1: "CHR ''/'' \<notin> set (base @ ''('' @ str k @ '')'' @ ext)"
    using assms str_no_slash [of k] by simp
  have 2: "base @ ''('' @ str k @ '')'' @ ext \<noteq> []" by simp
  have "length (base @ ''('' @ str k @ '')'' @ ext) \<ge> 2" by simp
  then have 3: "base @ ''('' @ str k @ '')'' @ ext \<noteq> ''.''"
    by (metis One_nat_def Suc_1 length_Cons list.size(3) not_less_eq_eq order_refl)
  show ?thesis unfolding candidate_def by (rule path_div_plain [OF 1 2 3])
qed

lemma candidate_inj:
  assumes "CHR ''/'' \<notin> set base" "CHR ''/'' \<notin> set ext"
    and "candidate base ext j = candidate base ext k"
  shows "j = k"
  using assms by (simp add: candidate_plain str_inj)

subsection \<open>The probing loop\<close>


lemma probe_Some:
  assumes "probe fs base ext c = Some p"
  shows "\<exists>d. p = candidate base ext (c + d)
           \<and> \<not> path_exists fs p
           \<and> (\<forall>j<d. path_exists fs (candidate base ext (c + j)))"
proof -
  define P where "P = (\<lambda>fs base ext c p. \<exists>d. p = candidate base ext (c + d)
           \<and> \<not> path_exists fs p
           \<and> (\<forall>j<d. path_exists fs (candidate base ext (c + j))))"
  have "P fs base ext c p"
  proof (rule probe.raw_induct [where P = P, OF _ assms])
    fix pr fs base ext counter y
    assume IH: "\<And>f b e k y. pr f b e k = Some y \<Longrightarrow> P f b e k y"
      and eq: "(if \<not> path_exists fs (candidate base ext counter)
                then Some (candidate base ext counter)
                else pr fs base ext (counter + 1)) = Some y"
    show "P fs base ext counter y"
    proof (cases "path_exists fs (candidate base ext counter)")
      case False
      with eq have "y = candidate base ext (counter + 0)" by simp
      with False show ?thesis unfolding P_def by (intro exI [of _ 0]) simp
    next
      case True
      with eq have "pr fs base ext (counter + 1) = Some y" by simp
      from IH [OF this] obtain d where d: "y = candidate base ext (counter + 1 + d)"
        "\<not> path_exists fs y" "\<forall>j<d. path_exists fs (candidate base ext (counter + 1 + j))"
        unfolding P_def by blast
      have "\<forall>j<Suc d. path_exists fs (candidate base ext (counter + j))"
      proof (intro allI impI)
        fix j assume "j < Suc d"
        show "path_exists fs (candidate base ext (counter + j))"
        proof (cases j)
          case 0
          with True show ?thesis by simp
        next
          case (Suc i)
          with \<open>j < Suc d\<close> d(3) show ?thesis by simp
        qed
      qed
      with d(1,2) show ?thesis unfolding P_def by (intro exI [of _ "Suc d"]) simp
    qed
  qed
  then show ?thesis unfolding P_def .
qed

subsection \<open>The streaming loop\<close>

lemma CHUNK_SIZE_pos: "0 < CHUNK_SIZE"
  by (simp add: CHUNK_SIZE_def)

lemma file_read_chunk:
  assumes "file_read CHUNK_SIZE body = (chunk, body')"
  shows "length chunk \<le> CHUNK_SIZE"
    and "chunk = [] \<Longrightarrow> received body = []"
    and "chunk \<noteq> [] \<Longrightarrow> received body = chunk @ received body'"
proof -
  show "length chunk \<le> CHUNK_SIZE"
    using assms by (cases body) auto
  show "received body = []" if "chunk = []"
    using assms that CHUNK_SIZE_pos by (cases body) (auto simp: received_def)
  show "received body = chunk @ received body'" if "chunk \<noteq> []"
  proof (cases body)
    case Nil
    with assms that show ?thesis by simp
  next
    case (Cons s rest)
    with assms that have s: "s \<noteq> []" by auto
    show ?thesis
    proof (cases "length s \<le> CHUNK_SIZE")
      case True
      with assms Cons s show ?thesis by (auto simp: received_def)
    next
      case False
      then have "drop CHUNK_SIZE s \<noteq> []" by simp
      with assms Cons s False show ?thesis
        by (auto simp: received_def simp flip: append_assoc)
    qed
  qed
qed

lemma stream_loop_Inr:
  "stream_loop flt i body content total_written tr = (Inr t, content', tr') \<Longrightarrow>
     t = total_written + length (received body) \<and> content' = content @ received body"
proof (induction flt i body content total_written tr rule: stream_loop.induct)
  case (1 flt i body content total_written tr)
  obtain chunk body' where rd: "file_read CHUNK_SIZE body = (chunk, body')"
    by (cases "file_read CHUNK_SIZE body")
  from "1.prems" have re: "read_error flt i = None"
    by (subst (asm) stream_loop.simps) (auto split: option.splits)
  show ?case
  proof (cases "chunk = []")
    case True
    with "1.prems" re rd file_read_chunk(2) [OF rd] show ?thesis
      by (subst (asm) stream_loop.simps) simp
  next
    case False
    from "1.prems" re rd False have we: "write_error flt i = None"
      by (subst (asm) stream_loop.simps) (auto split: option.splits)
    from "1.prems" re rd False we
    have "stream_loop flt (i + 1) body' (content @ chunk) (total_written + length chunk)
            (tr @ [Ev_read CHUNK_SIZE chunk, Ev_write chunk]) = (Inr t, content', tr')"
      by (subst (asm) stream_loop.simps) simp
    from "1.IH" [OF re rd [symmetric] False we this] file_read_chunk(3) [OF rd False]
    show ?thesis by simp
  qed
qed

lemma stream_loop_shape:
  "stream_loop flt i body content total_written tr = (r, content', tr') \<Longrightarrow>
   \<exists>cs fin. tr' = tr @ chunk_events cs @ fin
      \<and> list_all (\<lambda>c. c \<noteq> [] \<and> length c \<le> CHUNK_SIZE) cs
      \<and> (case r of
            Inr t \<Rightarrow> fin = [Ev_read CHUNK_SIZE []] \<and> t = total_written + length (concat cs)
                     \<and> content' = content @ concat cs \<and> concat cs = received body
          | Inl msg \<Rightarrow>
              (fin = [Ev_raise msg] \<and> flt = Some (Read_fails (i + length cs) msg)
                 \<and> content' = content @ concat cs)
            \<or> (\<exists>c n. fin = [Ev_read CHUNK_SIZE c, Ev_raise msg]
                 \<and> flt = Some (Write_fails (i + length cs) n msg)
                 \<and> content' = content @ concat cs @ take n c))"
proof (induction flt i body content total_written tr rule: stream_loop.induct)
  case (1 flt i body content total_written tr)
  obtain chunk body' where rd: "file_read CHUNK_SIZE body = (chunk, body')"
    by (cases "file_read CHUNK_SIZE body")
  show ?case
  proof (cases "read_error flt i")
    case (Some msg)
    then have f: "flt = Some (Read_fails i msg)"
      by (auto simp: read_error_def split: option.splits io_fault.splits if_splits)
    from "1.prems" Some have "r = Inl msg" "content' = content" "tr' = tr @ [Ev_raise msg]"
      by (subst (asm) stream_loop.simps, simp)+
    with f show ?thesis
      by (intro exI [of _ "[]"] exI [of _ "[Ev_raise msg]"]) (simp add: chunk_events_def)
  next
    case re: None
    show ?thesis
    proof (cases "chunk = []")
      case True
      with "1.prems" re rd
      have "r = Inr total_written" "content' = content" "tr' = tr @ [Ev_read CHUNK_SIZE []]"
        by (subst (asm) stream_loop.simps, simp)+
      with file_read_chunk(2) [OF rd True] show ?thesis
        by (intro exI [of _ "[]"] exI [of _ "[Ev_read CHUNK_SIZE []]"])
          (simp add: chunk_events_def)
    next
      case False
      show ?thesis
      proof (cases "write_error flt i")
        case (Some nm)
        obtain n msg where nm: "nm = (n, msg)" by (cases nm)
        with Some have f: "flt = Some (Write_fails i n msg)"
          by (auto simp: write_error_def split: option.splits io_fault.splits if_splits)
        from "1.prems" re rd False Some nm
        have "r = Inl msg" "content' = content @ take n chunk"
          "tr' = tr @ [Ev_read CHUNK_SIZE chunk, Ev_raise msg]"
          by (subst (asm) stream_loop.simps, simp)+
        with f show ?thesis
          by (intro exI [of _ "[]"] exI [of _ "[Ev_read CHUNK_SIZE chunk, Ev_raise msg]"])
            (simp add: chunk_events_def)
      next
        case we: None
        from "1.prems" re rd False we
        have rec: "stream_loop flt (i + 1) body' (content @ chunk) (total_written + length chunk)
            (tr @ [Ev_read CHUNK_SIZE chunk, Ev_write chunk]) = (r, content', tr')"
          by (subst (asm) stream_loop.simps) simp
        from "1.IH" [OF re rd [symmetric] False we rec]
        obtain cs fin where
          tr': "tr' = (tr @ [Ev_read CHUNK_SIZE chunk, Ev_write chunk]) @ chunk_events cs @ fin"
          and wf: "list_all (\<lambda>c. c \<noteq> [] \<and> length c \<le> CHUNK_SIZE) cs"
          and res: "case r of
            Inr t \<Rightarrow> fin = [Ev_read CHUNK_SIZE []] \<and> t = total_written + length chunk + length (concat cs)
                     \<and> content' = (content @ chunk) @ concat cs \<and> concat cs = received body'
          | Inl msg \<Rightarrow>
              (fin = [Ev_raise msg] \<and> flt = Some (Read_fails (i + 1 + length cs) msg)
                 \<and> content' = (content @ chunk) @ concat cs)
            \<or> (\<exists>c n. fin = [Ev_read CHUNK_SIZE c, Ev_raise msg]
                 \<and> flt = Some (Write_fails (i + 1 + length cs) n msg)
                 \<and> content' = (content @ chunk) @ concat cs @ take n c)"
          by blast
        show ?thesis
        proof (intro exI [of _ "chunk # cs"] exI [of _ fin] conjI)
          show "tr' = tr @ chunk_events (chunk # cs) @ fin"
            using tr' by (simp add: chunk_events_def)
          show "list_all (\<lambda>c. c \<noteq> [] \<and> length c \<le> CHUNK_SIZE) (chunk # cs)"
            using wf False file_read_chunk(1) [OF rd] by simp
          show "case r of
            Inr t \<Rightarrow> fin = [Ev_read CHUNK_SIZE []] \<and> t = total_written + length (concat (chunk # cs))
                     \<and> content' = content @ concat (chunk # cs)
                     \<and> concat (chunk # cs) = received body
          | Inl msg \<Rightarrow>
              (fin = [Ev_raise msg] \<and> flt = Some (Read_fails (i + length (chunk # cs)) msg)
                 \<and> content' = content @ concat (chunk # cs))
            \<or> (\<exists>c n. fin = [Ev_read CHUNK_SIZE c, Ev_raise msg]
                 \<and> flt = Some (Write_fails (i + length (chunk # cs)) n msg)
                 \<and> content' = content @ concat (chunk # cs) @ take n c)"
            using res file_read_chunk(3) [OF rd False]
            by (cases r) (auto simp: add.assoc)
        qed
      qed
    qed
  qed
qed

subsection \<open>Filename resolution\<close>

lemma is_dir_plain: "plain_name n \<Longrightarrow> \<not> is_dir [''uploads'', n]"
  by (simp add: is_dir_def UPLOAD_DIR_eq plain_name_def)

lemma splitext_no_slash:
  assumes "CHR ''/'' \<notin> set name"
  shows "CHR ''/'' \<notin> set (fst (splitext name))" and "CHR ''/'' \<notin> set (snd (splitext name))"
proof -
  have "fst (splitext name) @ snd (splitext name) = name"
    by (rule splitext_append) simp
  then have "set name = set (fst (splitext name)) \<union> set (snd (splitext name))"
    by (metis set_append)
  with assms show "CHR ''/'' \<notin> set (fst (splitext name))"
    and "CHR ''/'' \<notin> set (snd (splitext name))" by auto
qed

lemma candidate_numbered:
  "CHR ''/'' \<notin> set name \<Longrightarrow>
     candidate (fst (splitext name)) (snd (splitext name)) k = [''uploads'', numbered name k]"
  by (simp add: candidate_plain splitext_no_slash numbered_def)

lemma numbered_plain:
  assumes "CHR ''/'' \<notin> set name"
  shows "plain_name (numbered name k)"
proof -
  have "CHR ''('' \<in> set (numbered name k)" by (simp add: numbered_def)
  then have "numbered name k \<noteq> []" "numbered name k \<noteq> ''.''" "numbered name k \<noteq> ''..''"
    by auto
  moreover have "CHR ''/'' \<notin> set (numbered name k)"
    using splitext_no_slash [OF assms] str_no_slash [of k] by (simp add: numbered_def)
  ultimately show ?thesis by (simp add: plain_name_def)
qed


lemma resolve_dest_alt:
  "resolve_dest fs name =
     (if path_exists fs (path_div UPLOAD_DIR name)
      then probe fs (fst (splitext name)) (snd (splitext name)) 1
      else Some (path_div UPLOAD_DIR name))"
  by (simp add: resolve_dest_def case_prod_beta)

lemma resolve_dest_cases:
  assumes "resolve_dest fs name = Some p"
  shows "(\<not> path_exists fs (path_div UPLOAD_DIR name) \<and> p = path_div UPLOAD_DIR name)
       \<or> (path_exists fs (path_div UPLOAD_DIR name)
          \<and> probe fs (fst (splitext name)) (snd (splitext name)) 1 = Some p)"
  using assms by (auto simp: resolve_dest_alt split: if_splits)

lemma resolve_dest_fresh:
  assumes "resolve_dest fs name = Some p"
  shows "\<not> path_exists fs p"
  using resolve_dest_cases [OF assms] probe_Some by blast

lemma path_div_dirs:
  "path_div UPLOAD_DIR ''.'' = UPLOAD_DIR" "path_div UPLOAD_DIR ''..'' = UPLOAD_DIR @ [''..'']"
  by (simp_all add: path_div_def parts_def is_absolute_def)

lemma resolve_dest_numbered:
  assumes "resolve_dest fs name = Some p" and "CHR ''/'' \<notin> set name"
    and "path_exists fs (path_div UPLOAD_DIR name)"
  shows "\<exists>k\<ge>1. p = [''uploads'', numbered name k]
            \<and> \<not> path_exists fs [''uploads'', numbered name k]
            \<and> (\<forall>j. 1 \<le> j \<and> j < k \<longrightarrow> path_exists fs [''uploads'', numbered name j])"
proof -
  from resolve_dest_cases [OF assms(1)] assms(3)
  have "probe fs (fst (splitext name)) (snd (splitext name)) 1 = Some p" by simp
  from probe_Some [OF this] obtain d where
    p: "p = candidate (fst (splitext name)) (snd (splitext name)) (1 + d)"
    and fresh: "\<not> path_exists fs p"
    and used: "\<forall>j<d. path_exists fs (candidate (fst (splitext name)) (snd (splitext name)) (1 + j))"
    by blast
  have "\<forall>j. 1 \<le> j \<and> j < 1 + d \<longrightarrow> path_exists fs [''uploads'', numbered name j]"
  proof (intro allI impI)
    fix j assume j: "1 \<le> j \<and> j < 1 + d"
    then have "j - 1 < d" "1 + (j - 1) = j" by arith+
    with used candidate_numbered [OF assms(2), of j]
    show "path_exists fs [''uploads'', numbered name j]" by metis
  qed
  with p fresh candidate_numbered [OF assms(2), of "1 + d"] show ?thesis
    by (intro exI [of _ "1 + d"]) simp
qed

lemma resolve_dest_plain:
  assumes "resolve_dest fs name = Some p" and "CHR ''/'' \<notin> set name" and "name \<noteq> []"
  shows "\<exists>n. p = [''uploads'', n] \<and> plain_name n \<and> (n = name \<or> (\<exists>k\<ge>1. n = numbered name k))"
proof (cases "path_exists fs (path_div UPLOAD_DIR name)")
  case True
  from resolve_dest_numbered [OF assms(1,2) True] numbered_plain [OF assms(2)]
  show ?thesis by blast
next
  case False
  with resolve_dest_cases [OF assms(1)] have p: "p = path_div UPLOAD_DIR name" by simp
  from False have "\<not> is_dir (path_div UPLOAD_DIR name)" by (simp add: path_exists_def)
  then have "name \<noteq> ''.''" "name \<noteq> ''..''"
    using path_div_dirs by (auto simp: is_dir_def)
  with assms(2,3) have pl: "plain_name name" by (simp add: plain_name_def)
  then have "p = [''uploads'', name]"
    unfolding p by (intro path_div_plain) (simp_all add: plain_name_def)
  with pl show ?thesis by blast
qed




subsection \<open>Saving\<close>


lemma touched_append: "touched (xs @ ys) = touched xs @ touched ys"
  by (induction xs rule: touched.induct) simp_all


lemma touched_chunk_events: "touched (chunk_events cs) = []"
  by (induction cs) (simp_all add: chunk_events_def)

lemma fst_save_failed:
  "fst (save_failed env fs p msg tr) = Inl (HTTPException 500 (''Failed to save file: '' @ msg))"
  by (simp add: save_failed_def split: prod.splits)


lemma save_open_fails:
  assumes "\<not> path_exists fs dest" and "fault env = Some (Open_fails msg)"
  shows "save env fs dest body =
           (Inl (HTTPException 500 (''Failed to save file: '' @ msg)), fs, [Ev_raise msg])"
  using assms by (simp add: save_def open_wb_def save_failed_def cleanup_def)

lemma save_failed_created:
  assumes "\<not> is_dir dest"
  shows "save_failed env (fs(dest \<mapsto> c)) dest msg tr =
           (Inl (HTTPException 500 (''Failed to save file: '' @ msg)),
            if unlink_fails env then fs(dest \<mapsto> c) else fs(dest := None),
            tr @ [if unlink_fails env then Ev_unlink_failed dest else Ev_unlink dest])"
  using assms by (simp add: save_failed_def cleanup_def path_exists_def)

lemma save_opened:
  assumes "\<not> path_exists fs dest" and "\<not> open_fault (fault env)"
    and "stream_loop (fault env) 0 body [] 0 [Ev_open dest] = (sr, content, tr1)"
  shows "save env fs dest body =
     (case sr of
        Inl msg \<Rightarrow> save_failed env (fs(dest \<mapsto> content)) dest msg (tr1 @ [Ev_close])
      | Inr t \<Rightarrow>
          (case close_error (fault env) of
             Some msg \<Rightarrow> save_failed env (fs(dest \<mapsto> content)) dest msg (tr1 @ [Ev_raise msg])
           | None \<Rightarrow> (Inr \<lparr>filename = path_name dest, size_bytes = t\<rparr>,
                      fs(dest \<mapsto> content), tr1 @ [Ev_close])))"
proof -
  from assms(1) have nd: "\<not> is_dir dest" by (simp add: path_exists_def)
  from assms(2) nd have "open_wb env fs dest = Inr (fs(dest \<mapsto> []))"
    by (auto simp: open_wb_def open_fault_def split: option.splits io_fault.splits)
  with assms(3) show ?thesis
    by (simp add: save_def split: sum.splits option.splits)
qed

lemma save_success:
  assumes fresh: "\<not> path_exists fs dest"
    and sv: "save env fs dest body = (Inr resp, fs', tr)"
  shows "resp = \<lparr>filename = path_name dest, size_bytes = length (received body)\<rparr>"
    and "fs' = fs(dest \<mapsto> received body)"
    and "\<exists>cs. tr = Ev_open dest # chunk_events cs @ [Ev_read CHUNK_SIZE [], Ev_close]
            \<and> concat cs = received body"
proof -
  obtain sr content tr1 where
    sl: "stream_loop (fault env) 0 body [] 0 [Ev_open dest] = (sr, content, tr1)"
    by (cases "stream_loop (fault env) 0 body [] 0 [Ev_open dest]")
  have no: "\<not> open_fault (fault env)"
  proof
    assume "open_fault (fault env)"
    then obtain m where "fault env = Some (Open_fails m)"
      by (auto simp: open_fault_def split: option.splits io_fault.splits)
    from save_open_fails [OF fresh this] sv show False by simp
  qed
  from save_opened [OF fresh no sl] sv
  obtain t where sr: "sr = Inr t" and ce: "close_error (fault env) = None"
    and out: "resp = \<lparr>filename = path_name dest, size_bytes = t\<rparr>"
      "fs' = fs(dest \<mapsto> content)" "tr = tr1 @ [Ev_close]"
    by (cases sr; cases "close_error (fault env)") (simp_all add: fst_save_failed prod_eq_iff)
  from stream_loop_shape [OF sl] sr obtain cs where
    "tr1 = [Ev_open dest] @ chunk_events cs @ [Ev_read CHUNK_SIZE []]"
    "t = 0 + length (concat cs)" "content = [] @ concat cs" "concat cs = received body"
    by auto
  with out show "resp = \<lparr>filename = path_name dest, size_bytes = length (received body)\<rparr>"
    and "fs' = fs(dest \<mapsto> received body)"
    and "\<exists>cs. tr = Ev_open dest # chunk_events cs @ [Ev_read CHUNK_SIZE [], Ev_close]
            \<and> concat cs = received body"
    by auto
qed


subsection \<open>The upload handler\<close>

lemma upload_SomeD:
  assumes "upload env fs f body = Some (r, fs', tr)" and "basename f \<noteq> []"
  shows "\<exists>dest. resolve_dest fs (basename f) = Some dest \<and> save env fs dest body = (r, fs', tr)"
  using assms by (auto simp: upload_def split: option.splits)






text \<open>
  C3. Whatever filename the request supplies, only its base name is used. An empty base
  name is answered with the client error 400, the file system untouched and no operation
  performed. Otherwise the destination is \<open>UPLOAD_DIR / n\<close> for a plain entry name \<open>n\<close>, the
  base name or a numbered variant of it; every other path of the file system keeps its
  contents, and no other path is opened or unlinked.
\<close>

theorem upload_confined:
  assumes "upload env fs f body = Some (r, fs', tr)"
  shows "if basename f = []
         then r = Inl (HTTPException 400 ''Missing filename'') \<and> fs' = fs \<and> tr = []
         else (\<exists>n. plain_name n
                 \<and> (n = basename f \<or> (\<exists>k\<ge>1. n = numbered (basename f) k))
                 \<and> resolve_dest fs (basename f) = Some (UPLOAD_DIR @ [n])
                 \<and> (\<forall>p. p \<noteq> UPLOAD_DIR @ [n] \<longrightarrow> fs' p = fs p)
                 \<and> set (touched tr) \<subseteq> {UPLOAD_DIR @ [n]})"
proof (cases "basename f = []")
  case True
  with assms show ?thesis by (simp add: upload_def)
next
  case False
  from upload_SomeD [OF assms False] obtain dest where
    rd: "resolve_dest fs (basename f) = Some dest"
    and sv: "save env fs dest body = (r, fs', tr)" by blast
  from resolve_dest_fresh [OF rd] have fresh: "\<not> path_exists fs dest" .
  from resolve_dest_plain [OF rd basename_no_slash False] obtain n where
    n: "dest = [''uploads'', n]" "plain_name n"
    "n = basename f \<or> (\<exists>k\<ge>1. n = numbered (basename f) k)" by blast
  have "(\<forall>p. p \<noteq> dest \<longrightarrow> fs' p = fs p) \<and> set (touched tr) \<subseteq> {dest}"
  proof (cases r)
    case (Inr resp)
    from save_success(2,3) [OF fresh sv [unfolded Inr]] show ?thesis
      by (auto simp: touched_append touched_chunk_events)
  next
    case (Inl e)
    obtain sr content tr1 where
      sl: "stream_loop (fault env) 0 body [] 0 [Ev_open dest] = (sr, content, tr1)"
      by (cases "stream_loop (fault env) 0 body [] 0 [Ev_open dest]")
    from stream_loop_shape [OF sl] obtain cs fin where
      tr1: "tr1 = [Ev_open dest] @ chunk_events cs @ fin"
      and fin: "touched fin = []"
      by (cases sr) auto
    from fresh have nd: "\<not> is_dir dest" by (simp add: path_exists_def)
    show ?thesis
    proof (cases "open_fault (fault env)")
      case True
      then obtain m where "fault env = Some (Open_fails m)"
        by (auto simp: open_fault_def split: option.splits io_fault.splits)
      from save_open_fails [OF fresh this, of body] sv show ?thesis by auto
    next
      case False
      have "\<exists>c msg tr0. touched tr0 = [] \<and>
          save env fs dest body = save_failed env (fs(dest \<mapsto> c)) dest msg (tr1 @ tr0)"
      proof (cases sr)
        case l: (Inl msg)
        with save_opened [OF fresh False sl]
        have "save env fs dest body =
            save_failed env (fs(dest \<mapsto> content)) dest msg (tr1 @ [Ev_close])" by simp
        then show ?thesis by (intro exI [of _ content] exI [of _ msg] exI [of _ "[Ev_close]"]) simp
      next
        case r: (Inr t)
        with save_opened [OF fresh False sl] sv Inl
        obtain msg where "save env fs dest body =
            save_failed env (fs(dest \<mapsto> content)) dest msg (tr1 @ [Ev_raise msg])"
          by (cases "close_error (fault env)") auto
        then show ?thesis
          by (intro exI [of _ content] exI [of _ msg] exI [of _ "[Ev_raise msg]"]) simp
      qed
      then obtain c msg tr0 where t0: "touched tr0 = []"
        and eq: "save env fs dest body = save_failed env (fs(dest \<mapsto> c)) dest msg (tr1 @ tr0)"
        by blast
      from eq sv save_failed_created [OF nd, of env fs c msg "tr1 @ tr0"]
      have "fs' = (if unlink_fails env then fs(dest \<mapsto> c) else fs(dest := None))"
        "tr = (tr1 @ tr0) @ [if unlink_fails env then Ev_unlink_failed dest else Ev_unlink dest]"
        by simp_all
      with tr1 fin t0 show ?thesis
        by (auto simp: touched_append touched_chunk_events)
    qed
  qed
  with n rd False show ?thesis by (auto simp: UPLOAD_DIR_eq)
qed




subsection \<open>Examples\<close>

lemmas upload_eval =
  upload_def basename_def rfind_def resolve_dest_def path_exists_def is_dir_def UPLOAD_DIR_eq
  path_div_def parts_def is_absolute_def save_def open_wb_def no_faults_def stream_loop.simps
  read_error_def write_error_def close_error_def CHUNK_SIZE_def path_name_def demo_body_def
  demo_fs_def splitext_def Let_def probe.simps candidate_def str.simps digit_char_def
  save_failed_def cleanup_def disk_full_def


lemma demo_traversal:
  "upload no_faults Map.empty ''../../etc/passed.mp4'' demo_body =
     Some (Inr \<lparr>filename = ''passed.mp4'', size_bytes = 5\<rparr>,
           [[''uploads'', ''passed.mp4''] \<mapsto> [1, 2, 3, 4, 5]],
           [Ev_open [''uploads'', ''passed.mp4''],
            Ev_read 4194304 [1, 2, 3], Ev_write [1, 2, 3],
            Ev_read 4194304 [4, 5], Ev_write [4, 5],
            Ev_read 4194304 [], Ev_close])"
  by (simp add: upload_eval)



lemma demo_dotdot:
  "map_option fst (upload no_faults Map.empty ''a/..'' demo_body) =
     Some (Inr \<lparr>filename = ''..(1)'', size_bytes = 5\<rparr>)"
  by (simp add: upload_eval)

lemma demo_missing:
  "upload no_faults Map.empty ''dir/'' demo_body =
     Some (Inl (HTTPException 400 ''Missing filename''), Map.empty, [])"
  by (simp add: upload_eval)








theorem upload_confined_witness:
  "basename ''../../etc/passed.mp4'' = ''passed.mp4''
   \<and> map_option fst (upload no_faults Map.empty ''../../etc/passed.mp4'' demo_body) =
       Some (Inr \<lparr>filename = ''passed.mp4'', size_bytes = 5\<rparr>)
   \<and> (\<exists>n. plain_name n
         \<and> resolve_dest Map.empty (basename ''../../etc/passed.mp4'') = Some (UPLOAD_DIR @ [n]))
   \<and> basename ''dir/'' = []
   \<and> upload no_faults Map.empty ''dir/'' demo_body =
       Some (Inl (HTTPException 400 ''Missing filename''), Map.empty, [])
   \<and> map_option fst (upload no_faults Map.empty ''a/..'' demo_body) =
       Some (Inr \<lparr>filename = ''..(1)'', size_bytes = 5\<rparr>)"
proof -
  have b: "basename ''../../etc/passed.mp4'' = ''passed.mp4''" and e: "basename ''dir/'' = []"
    by (simp_all add: basename_def rfind_def)
  from upload_confined [OF demo_traversal] b
  have "\<exists>n. plain_name n
         \<and> resolve_dest Map.empty (basename ''../../etc/passed.mp4'') = Some (UPLOAD_DIR @ [n])"
    by auto
  with b e demo_traversal demo_missing demo_dotdot show ?thesis by simp
qed




end
